theory Spec2Isabelle
  imports Main "HOL-Library.Sublist" "HOL-Library.Transitive_Closure_Table"
begin

section \<open>The Rust code generator of concerto-codegen (rustvisitor.js)\<close>

subsection \<open>Strings of the host language\<close>

text \<open>
  A string of the source is a \<open>string\<close> here, one character for one code point (the
  source walks its input by code points). Only the code points below 256 are
  represented; the others behave like any character outside \<^verbatim>\<open>validChars\<close>.
\<close>

text \<open>
  \<^verbatim>\<open>String.prototype.includes\<close>: the needle occurs somewhere in the receiver as a
  contiguous substring. The empty needle occurs in every string.
\<close>

fun string_includes :: "string \<Rightarrow> string \<Rightarrow> bool" where
  "string_includes [] needle = (needle = [])"
| "string_includes (h # t) needle = (prefix needle (h # t) \<or> string_includes t needle)"

text \<open>
  \<^verbatim>\<open>String.prototype.charAt\<close>: the one-character string at the index, the empty string
  when the index is out of range.
\<close>

definition charAt :: "string \<Rightarrow> nat \<Rightarrow> string" where
  "charAt s i = (if i < length s then [s ! i] else [])"

text \<open>The character class \<^verbatim>\<open>[A-Z]\<close> and \<^verbatim>\<open>toLowerCase\<close> on one character.\<close>

definition isUpperAZ :: "char \<Rightarrow> bool" where
  "isUpperAZ c = ((65::nat) \<le> of_char c \<and> of_char c \<le> (90::nat))"

definition toLowerCase :: "char \<Rightarrow> char" where
  "toLowerCase c = (if isUpperAZ c then char_of (of_char c + (32::nat)) else c)"

text \<open>
  \<^verbatim>\<open>s.replace(p, r)\<close> with a string pattern of one character: only the first occurrence
  is replaced.
\<close>

fun replaceFirst :: "char \<Rightarrow> string \<Rightarrow> string \<Rightarrow> string" where
  "replaceFirst p r [] = []"
| "replaceFirst p r (c # cs) = (if c = p then r @ cs else c # replaceFirst p r cs)"

text \<open>
  \<^verbatim>\<open>s.replace(/p/g, r)\<close> with a one-character pattern: every occurrence is replaced.
\<close>

definition replaceAll :: "char \<Rightarrow> string \<Rightarrow> string \<Rightarrow> string" where
  "replaceAll p r s = concat (map (\<lambda>c. if c = p then r else [c]) s)"

subsection \<open>Name sanitizer\<close>

text \<open>The constant \<^verbatim>\<open>keywords\<close> of the source (Rust keywords).\<close>

definition keywords_rust :: "string list" where
  "keywords_rust =
    [''abstract'', ''as'', ''async'', ''await'', ''become'', ''box'', ''break'', ''const'',
     ''continue'', ''crate'', ''do'', ''dyn'',
     ''else'', ''enum'', ''extern'', ''false'', ''final'', ''fn'', ''for'', ''if'', ''impl'',
     ''in'', ''let'', ''loop'', ''macro'',
     ''match'', ''mod'', ''move'', ''mut'', ''override'', ''priv'', ''pub'', ''ref'', ''return'',
     ''self'', ''static'', ''struct'',
     ''super'', ''trait'', ''true'', ''try'', ''type'', ''typeof'', ''unsafe'', ''unsized'',
     ''use'', ''virtual'', ''where'',
     ''while'', ''yield'']"

definition validChars :: string where
  "validChars = ''abcdefghijklmnopqrstuvwxyzABCDEFGHIJKLMNOPQRSTUVWXYZ0123456789_''"

text \<open>
  The snake-case step: \<^verbatim>\<open>result.replace(/[A-Z]/g, (match, offset) => ...)\<close>. The offset
  is the position of the match in the string before replacement.
\<close>

fun snakeCase :: "nat \<Rightarrow> string \<Rightarrow> string" where
  "snakeCase offset [] = []"
| "snakeCase offset (c # cs) =
     (if isUpperAZ c
      then (if offset = 0 then [toLowerCase c] else CHR ''_'' # [toLowerCase c])
      else [c]) @ snakeCase (Suc offset) cs"

text \<open>The loop \<^verbatim>\<open>while (keywords.includes(result)) { result += '_'; }\<close>.\<close>

function keywordLoop :: "string \<Rightarrow> string" where
  "keywordLoop result =
     (if List.member keywords_rust result then keywordLoop (result @ ''_'') else result)"
  by pat_completeness auto
termination
  by (relation "measure (\<lambda>r. 9 - length r)") (auto simp: keywords_rust_def)

declare keywordLoop.simps [simp del]

definition toValidRustName :: "string \<Rightarrow> string" where
  "toValidRustName input =
     (let result = map (\<lambda>c. if string_includes validChars [c] then c else CHR ''_'') input;
          result = snakeCase 0 result;
          result = (if \<not> string_includes validChars (charAt result 0) then ''_'' @ result else result)
      in keywordLoop result)"

definition toRustCrateName :: "string \<Rightarrow> string" where
  "toRustCrateName namespace = replaceAll (CHR ''.'') ''_'' (replaceAll (CHR ''@'') ''_'' namespace)"

subsection \<open>The output sink\<close>

text \<open>
  The file writer (\<^verbatim>\<open>FileWriter\<close> of the utility library) is an external collaborator,
  modelled by the interface the visitor uses: \<^verbatim>\<open>openFile\<close> begins a named unit and fails
  when one is open already, \<^verbatim>\<open>writeLine\<close> appends a line (an indentation level with a
  text) to the open unit and fails when none is open, \<^verbatim>\<open>closeFile\<close> seals the open unit
  and fails when none is open. The closed units are kept in the order in which they were
  closed.
\<close>

type_synonym line = "nat \<times> string"

datatype error = FileAlreadyOpen | FileNotOpen | TypeError | Unrecognised string

record fileWriter =
  closed :: "(string \<times> line list) list"
  current :: "(string \<times> line list) option"

type_synonym step = "fileWriter \<Rightarrow> error + fileWriter"

definition openFile :: "string \<Rightarrow> step" where
  "openFile fileName w =
     (case current w of
        Some u \<Rightarrow> Inl FileAlreadyOpen
      | None \<Rightarrow> Inr (w\<lparr>current := Some (fileName, [])\<rparr>))"

definition writeLine :: "nat \<Rightarrow> string \<Rightarrow> step" where
  "writeLine tabs text w =
     (case current w of
        None \<Rightarrow> Inl FileNotOpen
      | Some (fileName, ls) \<Rightarrow> Inr (w\<lparr>current := Some (fileName, ls @ [(tabs, text)])\<rparr>))"

definition closeFile :: step where
  "closeFile w =
     (case current w of
        None \<Rightarrow> Inl FileNotOpen
      | Some u \<Rightarrow> Inr (w\<lparr>closed := closed w @ [u], current := None\<rparr>))"

text \<open>
  Statements in sequence: the first failure ends the run, as a thrown exception does.
\<close>

fun seq :: "step list \<Rightarrow> step" where
  "seq [] w = Inr w"
| "seq (s # ss) w = (case s w of Inl e \<Rightarrow> Inl e | Inr w' \<Rightarrow> seq ss w')"

subsection \<open>The declaration graph\<close>

text \<open>
  A field or relationship as the visitor reads it: \<^verbatim>\<open>name\<close>, \<^verbatim>\<open>type\<close> and the methods
  \<^verbatim>\<open>isArray\<close> and \<^verbatim>\<open>isOptional\<close>, which the visitor calls as \<^verbatim>\<open>field.isArray?.()\<close>:
  \<open>None\<close> is an object without the method (the call yields \<^verbatim>\<open>undefined\<close>).
\<close>

record property =
  name :: string
  type :: string
  isArray :: "bool option"
  isOptional :: "bool option"

definition truthy :: "bool option \<Rightarrow> bool" where
  "truthy r = (r = Some True)"

text \<open>
  The nodes of the upstream graph. \<open>Field p (Some f)\<close> is a field whose type is a scalar
  alias, \<open>f\<close> being what \<^verbatim>\<open>getScalarField()\<close> returns. \<open>Other\<close> is any object that answers
  none of the capability predicates, with its \<^verbatim>\<open>typeof\<close> and its \<^verbatim>\<open>util.inspect\<close> text.
\<close>

datatype thing =
    ModelManager (getNamespaces: "string list") (getModelFiles: "thing list")
  | ModelFile (getNamespace: string) (getImports: "string list") (getAllDeclarations: "thing list")
  | EnumDeclaration (getName: string) (getOwnProperties: "thing list")
  | ClassDeclaration (getName: string) (getProperties: "thing list")
  | Field property (getScalarField: "property option")
  | RelationshipDeclaration property
  | ScalarDeclaration (getName: string)
  | EnumValueDeclaration (getName: string)
  | Other (typeof: string) (inspect: string)

text \<open>The capability predicates: whether \<^verbatim>\<open>thing.isX?.()\<close> is truthy.\<close>

fun isModelManager :: "thing \<Rightarrow> bool" where
  "isModelManager (ModelManager nss mfs) = True"
| "isModelManager t = False"

fun isModelFile :: "thing \<Rightarrow> bool" where
  "isModelFile (ModelFile ns imps ds) = True"
| "isModelFile t = False"

fun isEnum :: "thing \<Rightarrow> bool" where
  "isEnum (EnumDeclaration n vs) = True"
| "isEnum t = False"

text \<open>An enumeration is a class declaration too; the dispatcher asks \<open>isEnum\<close> first.\<close>

fun isClassDeclaration :: "thing \<Rightarrow> bool" where
  "isClassDeclaration (ClassDeclaration n ps) = True"
| "isClassDeclaration (EnumDeclaration n vs) = True"
| "isClassDeclaration t = False"

fun isTypeScalar :: "thing \<Rightarrow> bool" where
  "isTypeScalar (Field p (Some f)) = True"
| "isTypeScalar t = False"

fun isField :: "thing \<Rightarrow> bool" where
  "isField (Field p sf) = True"
| "isField t = False"

fun isRelationship :: "thing \<Rightarrow> bool" where
  "isRelationship (RelationshipDeclaration p) = True"
| "isRelationship t = False"

fun isScalarDeclaration :: "thing \<Rightarrow> bool" where
  "isScalarDeclaration (ScalarDeclaration n) = True"
| "isScalarDeclaration t = False"

fun isEnumValue :: "thing \<Rightarrow> bool" where
  "isEnumValue (EnumValueDeclaration n) = True"
| "isEnumValue t = False"

text \<open>\<^verbatim>\<open>property.name\<close>; \<open>None\<close> where the node has no such attribute.\<close>

fun nameOf :: "thing \<Rightarrow> string option" where
  "nameOf (Field p sf) = Some (name p)"
| "nameOf (RelationshipDeclaration p) = Some (name p)"
| "nameOf (EnumDeclaration n vs) = Some n"
| "nameOf (ClassDeclaration n ps) = Some n"
| "nameOf (ScalarDeclaration n) = Some n"
| "nameOf (EnumValueDeclaration n) = Some n"
| "nameOf t = None"

text \<open>
  \<^verbatim>\<open>ModelUtil.getNamespace\<close> of the model library: the part of a fully qualified name
  before its last dot, the empty string when there is no dot.
\<close>

fun dropLastSegment :: "string \<Rightarrow> string" where
  "dropLastSegment [] = []"
| "dropLastSegment (c # cs) = (if CHR ''.'' \<in> set cs then c # dropLastSegment cs else [])"

definition ModelUtil_getNamespace :: "string \<Rightarrow> string" where
  "ModelUtil_getNamespace fqn = dropLastSegment fqn"

text \<open>\<^verbatim>\<open>a.indexOf(v)\<close> and the filter \<^verbatim>\<open>(v, i, a) => a.indexOf(v) === i\<close>.\<close>

fun indexOf :: "'a list \<Rightarrow> 'a \<Rightarrow> nat option" where
  "indexOf [] v = None"
| "indexOf (x # xs) v = (if x = v then Some 0 else map_option Suc (indexOf xs v))"

definition firstOccurrences :: "'a list \<Rightarrow> 'a list" where
  "firstOccurrences a = map fst (filter (\<lambda>(v, i). indexOf a v = Some i) (zip a [0..<length a]))"

subsection \<open>The visitor\<close>

text \<open>
  The methods of \<^verbatim>\<open>RustVisitor\<close>, each a step on the file writer that the source
  reaches through \<^verbatim>\<open>parameters.fileWriter\<close>. The \<^verbatim>\<open>console.log\<close> traces are left out.
\<close>

definition dquote :: string where
  "dquote = [CHR 0x22]"

definition squote :: string where
  "squote = [CHR 0x27]"

fun toRustType :: "string \<Rightarrow> string" where
  "toRustType t =
     (if t = ''DateTime'' then ''DateTime<Utc>''
      else if t = ''Boolean'' then ''bool''
      else if t = ''Long'' then ''u64''
      else if t = ''Double'' then ''f64''
      else t)"

definition isDateField :: "string \<Rightarrow> bool" where
  "isDateField t = (t = ''DateTime'')"

definition visitField :: "property \<Rightarrow> step" where
  "visitField field =
     (let type1 = toRustType (type field);
          type2 = (if truthy (isArray field) then ''Vec<'' @ type1 @ ''>'' else type1);
          type3 = (if truthy (isOptional field) then ''Option<'' @ type2 @ ''>'' else type2)
      in seq
          ([writeLine 1 ''#[serde('',
            writeLine 2 (''rename = '' @ dquote @ name field @ dquote @ '','')]
           @ (if truthy (isOptional field)
              then [writeLine 2 (''skip_serializing_if = '' @ dquote @ ''Option::is_none'' @ dquote @ '','')]
              else [])
           @ (if isDateField (type field)
              then (if truthy (isOptional field)
                    then [writeLine 2 (''serialize_with = '' @ dquote @ ''serialize_datetime_option'' @ dquote @ '',''),
                          writeLine 2 (''deserialize_with = '' @ dquote @ ''deserialize_datetime_option'' @ dquote @ '','')]
                    else [writeLine 2 (''serialize_with = '' @ dquote @ ''serialize_datetime'' @ dquote @ '',''),
                          writeLine 2 (''deserialize_with = '' @ dquote @ ''deserialize_datetime'' @ dquote @ '','')])
              else [])
           @ [writeLine 1 '')]'',
              writeLine 1 (''pub '' @ toValidRustName (replaceFirst (CHR ''$'') [] (name field))
                           @ '': '' @ type3 @ '','')]))"

definition visitRelationshipDeclaration :: "property \<Rightarrow> step" where
  "visitRelationshipDeclaration relationshipDeclaration =
     (let type1 = type relationshipDeclaration;
          type2 = (if truthy (isArray relationshipDeclaration) then ''Vec<'' @ type1 @ ''>'' else type1);
          type3 = (if truthy (isOptional relationshipDeclaration) then ''Option<'' @ type2 @ ''>'' else type2)
      in seq
          [writeLine 1 (''#[serde(rename = '' @ dquote @ name relationshipDeclaration @ dquote @ '')]''),
           writeLine 1 (''pub '' @ toValidRustName (replaceFirst (CHR ''$'') [] (name relationshipDeclaration))
                        @ '': '' @ type3 @ '','')])"


definition addUtilsModelFile :: step where
  "addUtilsModelFile =
     seq
      [openFile ''utils.rs'',
       writeLine 0 ''use chrono::{ DateTime, TimeZone, Utc };'',
       writeLine 0 ''use serde::{ Deserialize, Serialize, Deserializer, Serializer };'',
       writeLine 1 [],
       writeLine 0 ''pub fn serialize_datetime_option<S>(datetime: &Option<chrono::DateTime<Utc>>, serializer: S) -> Result<S::Ok, S::Error>'',
       writeLine 0 ''where'',
       writeLine 1 ''S: Serializer,'',
       writeLine 0 ''{'',
       writeLine 1 ''match datetime {'',
       writeLine 2 ''Some(dt) => {'',
       writeLine 3 ''serialize_datetime(&dt, serializer)'',
       writeLine 2 ''},'',
       writeLine 2 ''_ => unreachable!(),'',
       writeLine 1 ''}'',
       writeLine 0 ''}'',
       writeLine 0 [],
       writeLine 0 (''pub fn deserialize_datetime_option<'' @ squote @ ''de, D>(deserializer: D) -> Result<Option<chrono::DateTime<Utc>>, D::Error>''),
       writeLine 0 ''where'',
       writeLine 1 (''D: Deserializer<'' @ squote @ ''de>,''),
       writeLine 0 ''{'',
       writeLine 1 ''match deserialize_datetime(deserializer) {'',
       writeLine 2 ''Ok(result)=>Ok(Some(result)),'',
       writeLine 2 ''Err(error) => Err(error),'',
       writeLine 1 ''}'',
       writeLine 0 ''}'',
       writeLine 0 [],
       writeLine 0 (''pub fn deserialize_datetime<'' @ squote @ ''de, D>(deserializer: D) -> Result<chrono::DateTime<Utc>, D::Error>''),
       writeLine 0 ''where'',
       writeLine 1 (''D: Deserializer<'' @ squote @ ''de>,''),
       writeLine 0 ''{'',
       writeLine 1 ''let datetime_str = String::deserialize(deserializer)?;'',
       writeLine 1 (''Utc.datetime_from_str(&datetime_str, '' @ dquote @ ''%Y-%m-%dT%H:%M:%S%.3fZ'' @ dquote @ '').map_err(serde::de::Error::custom)''),
       writeLine 0 ''}'',
       writeLine 1 [],
       writeLine 0 ''pub fn serialize_datetime<S>(datetime: &chrono::DateTime<Utc>, serializer: S) -> Result<S::Ok, S::Error>'',
       writeLine 0 ''where'',
       writeLine 1 ''S: Serializer,'',
       writeLine 0 ''{'',
       writeLine 1 (''let datetime_str = datetime.format('' @ dquote @ ''%Y-%m-%dT%H:%M:%S%.3fZ'' @ dquote @ '').to_string();''),
       writeLine 1 ''serializer.serialize_str(&datetime_str)'',
       writeLine 0 ''}'',
       closeFile]"

fun visitScalarDeclaration :: "thing \<Rightarrow> step" where
  "visitScalarDeclaration (ScalarDeclaration scalarName) w =
     writeLine 0 (''scalarDeclaration - '' @ scalarName) w"
| "visitScalarDeclaration t w = Inl TypeError"

fun visitEnumValueDeclaration :: "thing \<Rightarrow> step" where
  "visitEnumValueDeclaration (EnumValueDeclaration valueName) w = writeLine 1 (valueName @ '','') w"
| "visitEnumValueDeclaration t w = Inl TypeError"

text \<open>
  The dispatcher and the four methods that call back into it. \<^verbatim>\<open>x.accept(this, parameters)\<close>
  of the model library is \<^verbatim>\<open>this.visit(x, parameters)\<close>. A method applied to a node without
  the attributes it reads fails with a \<^verbatim>\<open>TypeError\<close>.
\<close>

fun visit :: "thing \<Rightarrow> step"
  and visitModelManager :: "thing \<Rightarrow> step"
  and visitModelFile :: "thing \<Rightarrow> step"
  and visitEnumDeclaration :: "thing \<Rightarrow> step"
  and visitClassDeclaration :: "thing \<Rightarrow> step"
where
  "visit thing w =
     (if isModelManager thing then visitModelManager thing w
      else if isModelFile thing then visitModelFile thing w
      else if isEnum thing then visitEnumDeclaration thing w
      else if isClassDeclaration thing then visitClassDeclaration thing w
      else if isTypeScalar thing then
        (case thing of Field p (Some scalarField) \<Rightarrow> visitField scalarField w | _ \<Rightarrow> Inl TypeError)
      else if isField thing then
        (case thing of Field p sf \<Rightarrow> visitField p w | _ \<Rightarrow> Inl TypeError)
      else if isRelationship thing then
        (case thing of RelationshipDeclaration p \<Rightarrow> visitRelationshipDeclaration p w | _ \<Rightarrow> Inl TypeError)
      else if isScalarDeclaration thing then visitScalarDeclaration thing w
      else if isEnumValue thing then visitEnumValueDeclaration thing w
      else Inl (Unrecognised (''Unrecognised type: '' @ typeof thing @ '', value: '' @ inspect thing)))"
| "visitModelManager (ModelManager namespaces modelFiles) w =
     seq
      ([openFile ''lib.rs'']
       @ map (\<lambda>namespace. writeLine 0 (''pub mod '' @ toValidRustName namespace @ '';'')) namespaces
       @ [writeLine 0 ''pub mod utils;'',
          closeFile,
          addUtilsModelFile]
       @ map (\<lambda>modelFile w'. visit modelFile w') modelFiles) w"
| "visitModelManager t w = Inl TypeError"
| "visitModelFile (ModelFile namespace imports declarations) w =
     seq
      ([openFile (toValidRustName namespace @ ''.rs''),
        writeLine 0 ''use serde::{ Deserialize, Serialize };'',
        writeLine 0 ''use chrono::{ DateTime, TimeZone, Utc };'',
        writeLine 1 []]
       @ map (\<lambda>ns. writeLine 0 (''use crate::'' @ toValidRustName ns @ ''::*;''))
           (firstOccurrences (filter (\<lambda>ns. ns \<noteq> namespace) (map ModelUtil_getNamespace imports)))
       @ [writeLine 0 ''use crate::utils::*;'',
          writeLine 1 []]
       @ map (\<lambda>declaration w'. visit declaration w') declarations
       @ [closeFile]) w"
| "visitModelFile t w = Inl TypeError"
| "visitEnumDeclaration (EnumDeclaration enumName ownProperties) w =
     seq
      ([writeLine 0 ''#[derive(Debug, Serialize, Deserialize)]'',
        writeLine 0 (''pub enum '' @ enumName @ '' {'')]
       @ map (\<lambda>property w'. visit property w') ownProperties
       @ [writeLine 0 (''}'' @ [CHR 0x0A])]) w"
| "visitEnumDeclaration t w = Inl TypeError"
| "visitClassDeclaration (ClassDeclaration className properties) w =
     seq
      ([writeLine 0 ''#[derive(Debug, Serialize, Deserialize)]'',
        writeLine 0 (''pub struct '' @ className @ '' {''),
        visitField \<lparr>name = ''$class'', type = ''String'', isArray = None, isOptional = None\<rparr>]
       @ concat (map (\<lambda>property. [writeLine 1 [], (\<lambda>w'. visit property w')])
                  (filter (\<lambda>property. nameOf property \<noteq> Some ''identifier'') properties))
       @ [writeLine 0 ''}'',
          writeLine 0 []]) w"
| "visitClassDeclaration t w = Inl TypeError"

subsection \<open>The recursion detector\<close>

text \<open>
  The class declarations of a model, as the detector reads them: the name of each class
  with the declared type names of its properties, in source order. A type name resolves
  to a class declaration when the table has an entry for it.
\<close>

type_synonym classTable = "(string \<times> string list) list"

definition classTyped :: "classTable \<Rightarrow> string \<Rightarrow> string list" where
  "classTyped g n =
     (case map_of g n of
        None \<Rightarrow> []
      | Some ts \<Rightarrow> filter (\<lambda>t. map_of g t \<noteq> None) ts)"

text \<open>
  Modelled from the spec: the class \<^verbatim>\<open>RecursionDetectionVisitor\<close> of \<^verbatim>\<open>./recursionvisitor\<close>,
  which \<^verbatim>\<open>isModelRecursive\<close> instantiates and which is not among the sources. The spec
  (section 4.4) describes a depth-first traversal from the declaration \<open>decl\<close> with an
  explicit path stack of the visited declarations. At a class node, for each property
  whose resolved type is a class declaration: when that type is on the path stack, the
  answer is true only if it is \<open>decl\<close> itself; otherwise the type is pushed and visited.
  A visited node is on the path stack, \<open>decl\<close> first of all: the spec needs that for a
  cycle to be seen on its return to the origin.
\<close>

function RecursionDetectionVisitor_visit ::
  "classTable \<Rightarrow> string \<Rightarrow> string list \<Rightarrow> string \<Rightarrow> bool" where
  "RecursionDetectionVisitor_visit g decl stack n =
     list_ex
       (\<lambda>t. if t \<in> set (n # stack) then t = decl
            else RecursionDetectionVisitor_visit g decl (n # stack) t)
       (classTyped g n)"
  by pat_completeness auto
termination
proof (relation "measure (\<lambda>(g, decl, stack, n). card (fst ` set g - set (n # stack)))")
  show "wf (measure (\<lambda>(g, decl, stack, n). card (fst ` set g - set (n # stack))))"
    by simp
next
  fix g :: classTable and decl :: string and stack :: "string list" and n t :: string
  assume t: "t \<in> set (classTyped g n)" and fresh: "t \<notin> set (n # stack)"
  from t have "map_of g t \<noteq> None"
    by (auto simp: classTyped_def split: option.splits)
  then have "t \<in> fst ` set g"
    by (auto dest: map_of_SomeD intro: rev_image_eqI)
  with fresh have "fst ` set g - set (t # n # stack) \<subset> fst ` set g - set (n # stack)"
    by auto
  then have "card (fst ` set g - set (t # n # stack)) < card (fst ` set g - set (n # stack))"
    by (intro psubset_card_mono) simp_all
  then show "((g, decl, n # stack, t), (g, decl, stack, n))
        \<in> measure (\<lambda>(g, decl, stack, n). card (fst ` set g - set (n # stack)))"
    by simp
qed

declare RecursionDetectionVisitor_visit.simps [simp del]

text \<open>
  \<^verbatim>\<open>isModelRecursive\<close>: the declaration accepts a fresh detector with an empty stack.
\<close>

definition isModelRecursive :: "classTable \<Rightarrow> string \<Rightarrow> bool" where
  "isModelRecursive g classDeclaration =
     RecursionDetectionVisitor_visit g classDeclaration [] classDeclaration"

subsection \<open>Notions used to state the properties\<close>

text \<open>The edge "class \<open>a\<close> declares a property whose type is the class \<open>b\<close>".\<close>

definition classEdge :: "classTable \<Rightarrow> string \<Rightarrow> string \<Rightarrow> bool" where
  "classEdge g a b = (b \<in> set (classTyped g a))"

text \<open>The regular expression \<^verbatim>\<open>[a-z_][a-z0-9_]*\<close>.\<close>

definition identStart :: string where
  "identStart = ''abcdefghijklmnopqrstuvwxyz_''"

definition lowerChars :: string where
  "lowerChars = ''abcdefghijklmnopqrstuvwxyz0123456789_''"

fun matchesIdentifier :: "string \<Rightarrow> bool" where
  "matchesIdentifier [] = False"
| "matchesIdentifier (c # cs) = (List.member identStart c \<and> list_all (List.member lowerChars) cs)"

text \<open>
  The lines of one member, stated apart from the visitor: the type expression is the base
  type, wrapped as an array first and as an optional second.
\<close>

definition wrapType :: "property \<Rightarrow> string \<Rightarrow> string" where
  "wrapType p base =
     (let arrayWrapped = (if isArray p = Some True then ''Vec<'' @ base @ ''>'' else base)
      in if isOptional p = Some True then ''Option<'' @ arrayWrapped @ ''>'' else arrayWrapped)"

definition memberLine :: "property \<Rightarrow> string \<Rightarrow> line" where
  "memberLine p base =
     (1, ''pub '' @ toValidRustName (replaceFirst (CHR ''$'') [] (name p)) @ '': ''
         @ wrapType p base @ '','')"

definition fieldLines :: "property \<Rightarrow> line list" where
  "fieldLines p =
     [(1, ''#[serde(''),
      (2, ''rename = '' @ dquote @ name p @ dquote @ '','')]
     @ (if isOptional p = Some True
        then [(2, ''skip_serializing_if = '' @ dquote @ ''Option::is_none'' @ dquote @ '','')]
        else [])
     @ (if type p = ''DateTime'' \<and> isOptional p = Some True
        then [(2, ''serialize_with = '' @ dquote @ ''serialize_datetime_option'' @ dquote @ '',''),
              (2, ''deserialize_with = '' @ dquote @ ''deserialize_datetime_option'' @ dquote @ '','')]
        else [])
     @ (if type p = ''DateTime'' \<and> isOptional p \<noteq> Some True
        then [(2, ''serialize_with = '' @ dquote @ ''serialize_datetime'' @ dquote @ '',''),
              (2, ''deserialize_with = '' @ dquote @ ''deserialize_datetime'' @ dquote @ '','')]
        else [])
     @ [(1, '')]''),
        memberLine p (toRustType (type p))]"

definition relationshipLines :: "property \<Rightarrow> line list" where
  "relationshipLines p =
     [(1, ''#[serde(rename = '' @ dquote @ name p @ dquote @ '')]''),
      memberLine p (type p)]"

fun memberLines :: "thing \<Rightarrow> line list" where
  "memberLines (Field p None) = fieldLines p"
| "memberLines (Field p (Some scalarField)) = fieldLines scalarField"
| "memberLines (RelationshipDeclaration p) = relationshipLines p"
| "memberLines t = []"

text \<open>A step that, on an open unit, succeeds and appends exactly the given lines.\<close>

definition appends :: "step \<Rightarrow> line list \<Rightarrow> bool" where
  "appends s ls =
     (\<forall>w fileName old. current w = Some (fileName, old) \<longrightarrow>
        s w = Inr (w\<lparr>current := Some (fileName, old @ ls)\<rparr>))"

text \<open>
  A step that, on an open unit, can only add lines to that unit; and a step that can only
  add units to the closed ones.
\<close>

definition keepsOpen :: "step \<Rightarrow> bool" where
  "keepsOpen s =
     (\<forall>w fileName old w'. current w = Some (fileName, old) \<longrightarrow> s w = Inr w' \<longrightarrow>
        closed w' = closed w \<and> (\<exists>ls. current w' = Some (fileName, old @ ls)))"

definition growsClosed :: "step \<Rightarrow> bool" where
  "growsClosed s = (\<forall>w w'. s w = Inr w' \<longrightarrow> (\<exists>ext. closed w' = closed w @ ext))"

text \<open>Example class tables: a three-cycle, a diamond, and a cycle away from the origin.\<close>

definition cycleABC :: classTable where
  "cycleABC = [(''A'', [''String'', ''B'']), (''B'', [''C'']), (''C'', [''A'', ''Long''])]"

definition diamond :: classTable where
  "diamond = [(''A'', [''B'', ''C'']), (''B'', [''D'']), (''C'', [''D'']), (''D'', [''String''])]"

definition lasso :: classTable where
  "lasso = [(''A'', [''B'']), (''B'', [''C'']), (''C'', [''B''])]"

section \<open>Properties of the name sanitizer\<close>

lemma string_includes_single: "string_includes s [c] = (c \<in> set s)"
  by (induction s) auto

lemma string_includes_empty: "string_includes s []"
  by (induction s) auto

lemma isUpperAZ_iff: "isUpperAZ c = (c \<in> set ''ABCDEFGHIJKLMNOPQRSTUVWXYZ'')"
proof
  assume "isUpperAZ c"
  then have r: "(65::nat) \<le> of_char c" "of_char c \<le> (90::nat)"
    by (simp_all add: isUpperAZ_def)
  define n :: nat where "n = of_char c"
  have c: "c = char_of n" by (simp add: n_def)
  from r have "n \<in> {65..<91}" by (simp add: n_def)
  then have "n \<in> set [65..<91]" by (simp only: set_upt)
  then have "char_of n \<in> char_of ` set [65..<91]" by blast
  also have "char_of ` set [65..<91] = set (map char_of [65..<91::nat])" by simp
  also have "map char_of [65..<91::nat] = ''ABCDEFGHIJKLMNOPQRSTUVWXYZ''" by code_simp
  finally show "c \<in> set ''ABCDEFGHIJKLMNOPQRSTUVWXYZ''" by (simp only: c)
next
  assume "c \<in> set ''ABCDEFGHIJKLMNOPQRSTUVWXYZ''"
  then show "isUpperAZ c" by (auto simp: isUpperAZ_def)
qed

lemma valid_not_upper: "c \<in> set validChars \<Longrightarrow> \<not> isUpperAZ c \<Longrightarrow> c \<in> set lowerChars"
  unfolding isUpperAZ_iff by (auto simp: validChars_def lowerChars_def)

lemma toLowerCase_upper: "isUpperAZ c \<Longrightarrow> toLowerCase c \<in> set lowerChars"
proof -
  assume u: "isUpperAZ c"
  have "\<forall>d \<in> set ''ABCDEFGHIJKLMNOPQRSTUVWXYZ''. List.member lowerChars (toLowerCase d)"
    by code_simp
  with u show ?thesis by (simp add: isUpperAZ_iff del: set_simps)
qed

lemma lower_not_upper: "c \<in> set lowerChars \<Longrightarrow> \<not> isUpperAZ c"
  unfolding isUpperAZ_iff by (auto simp: lowerChars_def)

lemma lower_valid: "c \<in> set lowerChars \<Longrightarrow> c \<in> set validChars"
  by (auto simp: validChars_def lowerChars_def)

lemma snakeCase_lower:
  "set xs \<subseteq> set validChars \<Longrightarrow> set (snakeCase off xs) \<subseteq> set lowerChars"
proof (induction xs arbitrary: off)
  case Nil
  then show ?case by simp
next
  case (Cons c cs)
  have u: "CHR ''_'' \<in> set lowerChars" by (simp add: lowerChars_def)
  from Cons.prems have c: "c \<in> set validChars" and cs: "set cs \<subseteq> set validChars" by simp_all
  from Cons.IH [OF cs] have "set (snakeCase (Suc off) cs) \<subseteq> set lowerChars" .
  with c u show ?case
    by (simp add: toLowerCase_upper valid_not_upper)
qed

lemma snakeCase_id: "set xs \<subseteq> set lowerChars \<Longrightarrow> snakeCase off xs = xs"
  by (induction xs arbitrary: off) (simp_all add: lower_not_upper)

lemma replace_invalid_valid:
  "set (map (\<lambda>c. if string_includes validChars [c] then c else CHR ''_'') xs) \<subseteq> set validChars"
proof -
  have "CHR ''_'' \<in> set validChars" by (simp add: validChars_def)
  then show ?thesis by (auto simp: string_includes_single)
qed

lemma replace_invalid_id:
  "set xs \<subseteq> set validChars \<Longrightarrow>
   map (\<lambda>c. if string_includes validChars [c] then c else CHR ''_'') xs = xs"
  by (induction xs) (simp_all add: string_includes_single)

text \<open>
  The check of the first character never fires: after the first two steps every
  character is in \<open>validChars\<close>, and \<^verbatim>\<open>charAt(0)\<close> of the empty string is the empty
  string, which every string includes.
\<close>

lemma first_char_valid:
  "set r \<subseteq> set validChars \<Longrightarrow> string_includes validChars (charAt r 0)"
  by (cases r) (simp_all add: charAt_def string_includes_empty string_includes_single)

lemma keywordLoop_stop: "r \<notin> set keywords_rust \<Longrightarrow> keywordLoop r = r"
  by (simp add: keywordLoop.simps)

lemma keywordLoop_not_keyword: "keywordLoop r \<notin> set keywords_rust"
  by (induction r rule: keywordLoop.induct) (subst keywordLoop.simps, simp)

lemma keywordLoop_chars: "set (keywordLoop r) \<subseteq> set r \<union> {CHR ''_''}"
proof (induction r rule: keywordLoop.induct)
  case (1 r)
  show ?case
  proof (cases "r \<in> set keywords_rust")
    case True
    with 1 have "set (keywordLoop (r @ ''_'')) \<subseteq> set (r @ ''_'') \<union> {CHR ''_''}" by simp
    moreover from True have "keywordLoop r = keywordLoop (r @ ''_'')"
      by (subst keywordLoop.simps) simp
    ultimately show ?thesis by auto
  next
    case False
    then show ?thesis by (auto simp: keywordLoop_stop)
  qed
qed

lemma toValidRustName_unfold:
  "toValidRustName x =
   keywordLoop (snakeCase 0 (map (\<lambda>c. if string_includes validChars [c] then c else CHR ''_'') x))"
proof -
  let ?r = "snakeCase 0 (map (\<lambda>c. if string_includes validChars [c] then c else CHR ''_'') x)"
  have "set ?r \<subseteq> set lowerChars" by (rule snakeCase_lower [OF replace_invalid_valid])
  then have "set ?r \<subseteq> set validChars" using lower_valid by blast
  then have "string_includes validChars (charAt ?r 0)" by (rule first_char_valid)
  then show ?thesis by (simp add: toValidRustName_def Let_def)
qed

lemma toValidRustName_chars: "set (toValidRustName x) \<subseteq> set lowerChars"
proof -
  have u: "CHR ''_'' \<in> set lowerChars" by (simp add: lowerChars_def)
  have "set (snakeCase 0 (map (\<lambda>c. if string_includes validChars [c] then c else CHR ''_'') x))
        \<subseteq> set lowerChars"
    by (rule snakeCase_lower [OF replace_invalid_valid])
  with keywordLoop_chars u show ?thesis unfolding toValidRustName_unfold by blast
qed

lemma toValidRustName_not_keyword: "toValidRustName x \<notin> set keywords_rust"
  unfolding toValidRustName_unfold by (rule keywordLoop_not_keyword)

text \<open>
  C3: for every input string the sanitizer returns a string matching
  \<^verbatim>\<open>[a-z_][a-z0-9_]*\<close> that is not a reserved word, the empty input yielding an underscore.
  The code does not do this: an input that starts with a digit keeps the digit in front,
  and the empty input yields the empty string. Neither result matches the expression.
\<close>

theorem toValidRustName_leading_digit_and_empty:
  "toValidRustName ''1abc'' = ''1abc'' \<and> \<not> matchesIdentifier (toValidRustName ''1abc'')
   \<and> toValidRustName [] = [] \<and> \<not> matchesIdentifier (toValidRustName [])"
  by code_simp

text \<open>
  C7: the sanitizer is idempotent: applying it to its own result returns that result.
\<close>

theorem toValidRustName_idempotent: "toValidRustName (toValidRustName x) = toValidRustName x"
proof -
  let ?y = "toValidRustName x"
  have l: "set ?y \<subseteq> set lowerChars" by (rule toValidRustName_chars)
  then have v: "set ?y \<subseteq> set validChars" using lower_valid by blast
  have nk: "?y \<notin> set keywords_rust" by (rule toValidRustName_not_keyword)
  have "toValidRustName ?y = keywordLoop (snakeCase 0 ?y)"
    by (subst toValidRustName_unfold) (simp only: replace_invalid_id [OF v])
  also have "\<dots> = keywordLoop ?y" by (simp only: snakeCase_id [OF l])
  also have "\<dots> = ?y" by (rule keywordLoop_stop [OF nk])
  finally show ?thesis .
qed

theorem toValidRustName_idempotent_witness:
  "toValidRustName (toValidRustName ''HelloWorld'') = toValidRustName ''HelloWorld''"
  by (rule toValidRustName_idempotent)


section \<open>Properties of the output sink and of the emitters\<close>

declare visit.simps(1) [simp del]

lemma writeLine_open:
  "current w = Some (fileName, old) \<Longrightarrow>
   writeLine tabs text w = Inr (w\<lparr>current := Some (fileName, old @ [(tabs, text)])\<rparr>)"
  by (simp add: writeLine_def)

lemma seq_append: "seq (a @ b) w = (case seq a w of Inl e \<Rightarrow> Inl e | Inr w' \<Rightarrow> seq b w')"
  by (induction a arbitrary: w) (auto split: sum.splits)

lemma appends_visitField: "appends (visitField p) (fieldLines p)"
  by (simp add: appends_def visitField_def fieldLines_def memberLine_def wrapType_def Let_def
      truthy_def isDateField_def writeLine_open del: toRustType.simps)

lemma appends_visitRelationshipDeclaration:
  "appends (visitRelationshipDeclaration p) (relationshipLines p)"
  by (simp add: appends_def visitRelationshipDeclaration_def relationshipLines_def memberLine_def
      wrapType_def Let_def truthy_def writeLine_open)

lemma visit_ModelManager: "visit (ModelManager a b) w = visitModelManager (ModelManager a b) w"
  and visit_ModelFile: "visit (ModelFile n i d) w = visitModelFile (ModelFile n i d) w"
  and visit_EnumDeclaration: "visit (EnumDeclaration n vs) w = visitEnumDeclaration (EnumDeclaration n vs) w"
  and visit_ClassDeclaration: "visit (ClassDeclaration n ps) w = visitClassDeclaration (ClassDeclaration n ps) w"
  and visit_Field_scalar: "visit (Field p (Some sf)) w = visitField sf w"
  and visit_Field: "visit (Field p None) w = visitField p w"
  and visit_RelationshipDeclaration: "visit (RelationshipDeclaration p) w = visitRelationshipDeclaration p w"
  and visit_ScalarDeclaration:
    "visit (ScalarDeclaration n) w = writeLine 0 (''scalarDeclaration - '' @ n) w"
  and visit_EnumValueDeclaration: "visit (EnumValueDeclaration n) w = writeLine 1 (n @ '','') w"
  and visit_Other: "visit (Other ty ins) w = Inl (Unrecognised (''Unrecognised type: '' @ ty @ '', value: '' @ ins))"
  by (simp_all add: visit.simps(1))

lemma keepsOpen_appends: "appends s ls \<Longrightarrow> keepsOpen s"
  by (auto simp: appends_def keepsOpen_def)

lemma appends_writeLine: "appends (writeLine tabs text) [(tabs, text)]"
  by (simp add: appends_def writeLine_open)

lemma keepsOpen_writeLine: "keepsOpen (writeLine tabs text)"
  by (rule keepsOpen_appends [OF appends_writeLine])

lemma keepsOpen_seq: "\<forall>s \<in> set ss. keepsOpen s \<Longrightarrow> keepsOpen (seq ss)"
proof (induction ss)
  case Nil
  show ?case by (auto simp: keepsOpen_def)
next
  case (Cons s ss)
  then have s: "keepsOpen s" and r: "keepsOpen (seq ss)" by simp_all
  show ?case
    unfolding keepsOpen_def
  proof (intro allI impI)
    fix w fileName old w'
    assume o: "current w = Some (fileName, old)" and run: "seq (s # ss) w = Inr w'"
    from run obtain w1 where 1: "s w = Inr w1" and 2: "seq ss w1 = Inr w'"
      by (auto split: sum.splits)
    from s o 1 obtain l1 where c1: "closed w1 = closed w" and o1: "current w1 = Some (fileName, old @ l1)"
      unfolding keepsOpen_def by blast
    from r o1 2 obtain l2 where "closed w' = closed w1" and "current w' = Some (fileName, (old @ l1) @ l2)"
      unfolding keepsOpen_def by blast
    with c1 show "closed w' = closed w \<and> (\<exists>ls. current w' = Some (fileName, old @ ls))"
      by simp
  qed
qed

lemma keepsOpen_openFile_first: "keepsOpen (seq (openFile n # ss))"
  by (simp add: keepsOpen_def openFile_def)

lemma keepsOpen_visit: "keepsOpen (\<lambda>w. visit t w)"
proof (induction t)
  case (ModelManager nss mfs)
  have "(\<lambda>w. visit (ModelManager nss mfs) w) = seq (openFile ''lib.rs'' #
      map (\<lambda>namespace. writeLine 0 (''pub mod '' @ toValidRustName namespace @ '';'')) nss
       @ [writeLine 0 ''pub mod utils;'', closeFile, addUtilsModelFile]
       @ map (\<lambda>modelFile w'. visit modelFile w') mfs)"
    by (rule ext) (simp add: visit_ModelManager)
  then show ?case by (simp only: keepsOpen_openFile_first)
next
  case (ModelFile ns imps ds)
  have "\<exists>ss. (\<lambda>w. visit (ModelFile ns imps ds) w) = seq (openFile (toValidRustName ns @ ''.rs'') # ss)"
    by (rule exI, rule ext) (simp add: visit_ModelFile)
  then show ?case by (auto simp only: keepsOpen_openFile_first)
next
  case (EnumDeclaration n vs)
  have e: "(\<lambda>w. visit (EnumDeclaration n vs) w) = seq
      ([writeLine 0 ''#[derive(Debug, Serialize, Deserialize)]'',
        writeLine 0 (''pub enum '' @ n @ '' {'')]
       @ map (\<lambda>property w'. visit property w') vs
       @ [writeLine 0 (''}'' @ [CHR 0x0A])])"
    by (rule ext) (simp only: visit_EnumDeclaration visitEnumDeclaration.simps)
  show ?case unfolding e
    by (rule keepsOpen_seq) (auto simp: keepsOpen_writeLine EnumDeclaration.IH)
next
  case (ClassDeclaration n ps)
  have e: "(\<lambda>w. visit (ClassDeclaration n ps) w) = seq
      ([writeLine 0 ''#[derive(Debug, Serialize, Deserialize)]'',
        writeLine 0 (''pub struct '' @ n @ '' {''),
        visitField \<lparr>name = ''$class'', type = ''String'', isArray = None, isOptional = None\<rparr>]
       @ concat (map (\<lambda>property. [writeLine 1 [], (\<lambda>w'. visit property w')])
                  (filter (\<lambda>property. nameOf property \<noteq> Some ''identifier'') ps))
       @ [writeLine 0 ''}'',
          writeLine 0 []])"
    by (rule ext) (simp only: visit_ClassDeclaration visitClassDeclaration.simps)
  show ?case unfolding e
    by (rule keepsOpen_seq)
      (auto simp: keepsOpen_writeLine ClassDeclaration.IH keepsOpen_appends [OF appends_visitField])
next
  case (Field p sf)
  then show ?case
    by (cases sf) (simp_all add: visit_Field visit_Field_scalar keepsOpen_appends [OF appends_visitField])
next
  case (RelationshipDeclaration p)
  then show ?case
    by (simp add: visit_RelationshipDeclaration keepsOpen_appends [OF appends_visitRelationshipDeclaration])
next
  case (ScalarDeclaration n)
  then show ?case
    by (simp add: visit_ScalarDeclaration keepsOpen_writeLine)
next
  case (EnumValueDeclaration n)
  then show ?case
    by (simp add: visit_EnumValueDeclaration keepsOpen_writeLine)
next
  case (Other ty ins)
  then show ?case by (simp add: visit_Other keepsOpen_def)
qed

lemma growsClosed_writeLine: "growsClosed (writeLine tabs text)"
  by (auto simp: growsClosed_def writeLine_def split: option.splits)

lemma growsClosed_openFile: "growsClosed (openFile n)"
  by (auto simp: growsClosed_def openFile_def split: option.splits)

lemma growsClosed_closeFile: "growsClosed closeFile"
  by (auto simp: growsClosed_def closeFile_def split: option.splits)

lemma growsClosed_seq: "\<forall>s \<in> set ss. growsClosed s \<Longrightarrow> growsClosed (seq ss)"
proof (induction ss)
  case Nil
  show ?case by (auto simp: growsClosed_def)
next
  case (Cons s ss)
  then have s: "growsClosed s" and r: "growsClosed (seq ss)" by simp_all
  show ?case
    unfolding growsClosed_def
  proof (intro allI impI)
    fix w w'
    assume run: "seq (s # ss) w = Inr w'"
    from run obtain w1 where 1: "s w = Inr w1" and 2: "seq ss w1 = Inr w'"
      by (auto split: sum.splits)
    from s 1 obtain e1 where c1: "closed w1 = closed w @ e1"
      unfolding growsClosed_def by blast
    from r 2 obtain e2 where "closed w' = closed w1 @ e2"
      unfolding growsClosed_def by blast
    with c1 show "\<exists>ext. closed w' = closed w @ ext" by simp
  qed
qed

lemma growsClosed_visitField: "growsClosed (visitField p)"
  unfolding visitField_def Let_def
  by (rule growsClosed_seq) (auto simp: growsClosed_writeLine)

lemma growsClosed_visitRelationshipDeclaration: "growsClosed (visitRelationshipDeclaration p)"
  unfolding visitRelationshipDeclaration_def Let_def
  by (rule growsClosed_seq) (auto simp: growsClosed_writeLine)

lemma growsClosed_addUtilsModelFile: "growsClosed addUtilsModelFile"
  unfolding addUtilsModelFile_def
  by (rule growsClosed_seq)
    (simp add: growsClosed_writeLine growsClosed_openFile growsClosed_closeFile)

lemma growsClosed_visit: "growsClosed (\<lambda>w. visit t w)"
proof (induction t)
  case (ModelManager nss mfs)
  have e: "(\<lambda>w. visit (ModelManager nss mfs) w) = seq
      ([openFile ''lib.rs'']
       @ map (\<lambda>namespace. writeLine 0 (''pub mod '' @ toValidRustName namespace @ '';'')) nss
       @ [writeLine 0 ''pub mod utils;'', closeFile, addUtilsModelFile]
       @ map (\<lambda>modelFile w'. visit modelFile w') mfs)"
    by (rule ext) (simp only: visit_ModelManager visitModelManager.simps)
  show ?case unfolding e
    by (rule growsClosed_seq)
      (auto simp: growsClosed_writeLine growsClosed_openFile growsClosed_closeFile
        growsClosed_addUtilsModelFile ModelManager.IH)
next
  case (ModelFile ns imps ds)
  have e: "(\<lambda>w. visit (ModelFile ns imps ds) w) = seq
      ([openFile (toValidRustName ns @ ''.rs''),
        writeLine 0 ''use serde::{ Deserialize, Serialize };'',
        writeLine 0 ''use chrono::{ DateTime, TimeZone, Utc };'',
        writeLine 1 []]
       @ map (\<lambda>ns. writeLine 0 (''use crate::'' @ toValidRustName ns @ ''::*;''))
           (firstOccurrences (filter (\<lambda>n. n \<noteq> ns) (map ModelUtil_getNamespace imps)))
       @ [writeLine 0 ''use crate::utils::*;'',
          writeLine 1 []]
       @ map (\<lambda>declaration w'. visit declaration w') ds
       @ [closeFile])"
    by (rule ext) (simp only: visit_ModelFile visitModelFile.simps)
  show ?case unfolding e
    by (rule growsClosed_seq)
      (auto simp: growsClosed_writeLine growsClosed_openFile growsClosed_closeFile ModelFile.IH)
next
  case (EnumDeclaration n vs)
  have e: "(\<lambda>w. visit (EnumDeclaration n vs) w) = seq
      ([writeLine 0 ''#[derive(Debug, Serialize, Deserialize)]'',
        writeLine 0 (''pub enum '' @ n @ '' {'')]
       @ map (\<lambda>property w'. visit property w') vs
       @ [writeLine 0 (''}'' @ [CHR 0x0A])])"
    by (rule ext) (simp only: visit_EnumDeclaration visitEnumDeclaration.simps)
  show ?case unfolding e
    by (rule growsClosed_seq) (auto simp: growsClosed_writeLine EnumDeclaration.IH)
next
  case (ClassDeclaration n ps)
  have e: "(\<lambda>w. visit (ClassDeclaration n ps) w) = seq
      ([writeLine 0 ''#[derive(Debug, Serialize, Deserialize)]'',
        writeLine 0 (''pub struct '' @ n @ '' {''),
        visitField \<lparr>name = ''$class'', type = ''String'', isArray = None, isOptional = None\<rparr>]
       @ concat (map (\<lambda>property. [writeLine 1 [], (\<lambda>w'. visit property w')])
                  (filter (\<lambda>property. nameOf property \<noteq> Some ''identifier'') ps))
       @ [writeLine 0 ''}'',
          writeLine 0 []])"
    by (rule ext) (simp only: visit_ClassDeclaration visitClassDeclaration.simps)
  show ?case unfolding e
    by (rule growsClosed_seq)
      (auto simp: growsClosed_writeLine ClassDeclaration.IH growsClosed_visitField)
next
  case (Field p sf)
  then show ?case
    by (cases sf) (simp_all add: visit_Field visit_Field_scalar growsClosed_visitField)
next
  case (RelationshipDeclaration p)
  then show ?case
    by (simp add: visit_RelationshipDeclaration growsClosed_visitRelationshipDeclaration)
next
  case (ScalarDeclaration n)
  then show ?case
    by (simp add: visit_ScalarDeclaration growsClosed_writeLine)
next
  case (EnumValueDeclaration n)
  then show ?case
    by (simp add: visit_EnumValueDeclaration growsClosed_writeLine)
next
  case (Other ty ins)
  then show ?case by (simp add: visit_Other growsClosed_def)
qed

lemma appends_writeLines:
  "appends (seq (map (\<lambda>x. writeLine 0 (f x)) xs)) (map (\<lambda>x. (0, f x)) xs)"
proof (induction xs)
  case Nil
  show ?case by (simp add: appends_def)
next
  case (Cons x xs)
  then show ?case by (simp add: appends_def writeLine_open)
qed

lemma toRustCrateName_map:
  "toRustCrateName namespace =
     map (\<lambda>c. if c = CHR ''@'' \<or> c = CHR ''.'' then CHR ''_'' else c) namespace"
  by (induction namespace) (auto simp: toRustCrateName_def replaceAll_def)

lemma manifest_written:
  assumes "current w = None"
  shows "seq ([openFile ''lib.rs'']
       @ map (\<lambda>namespace. writeLine 0 (''pub mod '' @ toValidRustName namespace @ '';'')) nss
       @ [writeLine 0 ''pub mod utils;'', closeFile]) w =
     Inr (w\<lparr>closed := closed w @
            [(''lib.rs'', map (\<lambda>namespace. (0, ''pub mod '' @ toValidRustName namespace @ '';'')) nss
                          @ [(0, ''pub mod utils;'')])],
           current := None\<rparr>)"
proof -
  let ?w1 = "w\<lparr>current := Some (''lib.rs'', [])\<rparr>"
  let ?ls = "map (\<lambda>namespace. (0::nat, ''pub mod '' @ toValidRustName namespace @ '';'')) nss"
  have 1: "openFile ''lib.rs'' w = Inr ?w1" using assms by (simp add: openFile_def)
  have 2: "seq (map (\<lambda>namespace. writeLine 0 (''pub mod '' @ toValidRustName namespace @ '';'')) nss) ?w1
      = Inr (?w1\<lparr>current := Some (''lib.rs'', [] @ ?ls)\<rparr>)"
    using appends_writeLines [of "\<lambda>namespace. ''pub mod '' @ toValidRustName namespace @ '';''" nss]
    unfolding appends_def by simp
  from 2 show ?thesis
    by (simp add: seq_append 1 writeLine_open closeFile_def)
qed

lemma appends_seq_Nil: "appends (seq []) []"
  by (simp add: appends_def)

lemma appends_seq_Cons:
  "appends s l1 \<Longrightarrow> appends (seq ss) l2 \<Longrightarrow> appends (seq (s # ss)) (l1 @ l2)"
  by (simp add: appends_def)

lemma appends_seq_append:
  "appends (seq a) l1 \<Longrightarrow> appends (seq b) l2 \<Longrightarrow> appends (seq (a @ b)) (l1 @ l2)"
  by (simp add: appends_def seq_append)

lemma appends_visit_member:
  "isField p \<or> isRelationship p \<Longrightarrow> appends (\<lambda>w. visit p w) (memberLines p)"
proof (cases p)
  case (Field q sf)
  then show ?thesis
    using appends_visitField by (cases sf) (simp_all add: appends_def visit.simps(1))
next
  case (RelationshipDeclaration q)
  then show ?thesis
    using appends_visitRelationshipDeclaration by (simp add: appends_def visit.simps(1))
qed simp_all

lemma appends_members:
  "\<forall>p \<in> set ps. isField p \<or> isRelationship p \<Longrightarrow>
   appends (seq (concat (map (\<lambda>property. [writeLine 1 [], (\<lambda>w'. visit property w')]) ps)))
     (concat (map (\<lambda>p. (1, []) # memberLines p) ps))"
proof (induction ps)
  case Nil
  show ?case by (simp add: appends_def)
next
  case (Cons p ps)
  then have m: "appends (\<lambda>w. visit p w) (memberLines p)"
    and r: "appends (seq (concat (map (\<lambda>property. [writeLine 1 [], (\<lambda>w'. visit property w')]) ps)))
     (concat (map (\<lambda>p. (1, []) # memberLines p) ps))"
    by (simp_all add: appends_visit_member)
  from m r show ?case
    by (simp add: appends_def writeLine_open)
qed

text \<open>
  C1: for a class declaration whose properties are fields and relationships, the emitted
  record is the derive line and the \<^verbatim>\<open>pub struct\<close> line, then the discriminator member
  (rename \<^verbatim>\<open>$class\<close>, type \<^verbatim>\<open>String\<close>, no optional wrapper and no skip annotation),
  present whatever the properties are, then one member per property in source order,
  each after an empty line, no member being emitted for a property named
  \<^verbatim>\<open>identifier\<close>; then the closing lines.
\<close>

theorem visitClassDeclaration_record:
  assumes "current w = Some (fileName, old)"
    and "\<forall>p \<in> set properties. isField p \<or> isRelationship p"
  shows "visitClassDeclaration (ClassDeclaration className properties) w =
     Inr (w\<lparr>current := Some (fileName, old @
       [(0, ''#[derive(Debug, Serialize, Deserialize)]''),
        (0, ''pub struct '' @ className @ '' {''),
        (1, ''#[serde(''),
        (2, ''rename = '' @ dquote @ ''$class'' @ dquote @ '',''),
        (1, '')]''),
        (1, ''pub class: String,'')]
       @ concat (map (\<lambda>p. (1, []) # memberLines p)
                  (filter (\<lambda>p. nameOf p \<noteq> Some ''identifier'') properties))
       @ [(0, ''}''), (0, [])])\<rparr>)"
proof -
  let ?disc = "\<lparr>name = ''$class'', type = ''String'', isArray = None, isOptional = None\<rparr>"
  let ?ps = "filter (\<lambda>p. nameOf p \<noteq> Some ''identifier'') properties"
  have n: "toValidRustName ''class'' = ''class''" by code_simp
  have d: "fieldLines ?disc =
      [(1, ''#[serde(''), (2, ''rename = '' @ dquote @ ''$class'' @ dquote @ '',''),
       (1, '')]''), (1, ''pub class: String,'')]"
    by (simp add: fieldLines_def memberLine_def wrapType_def n)
  have head: "appends (seq [writeLine 0 ''#[derive(Debug, Serialize, Deserialize)]'',
        writeLine 0 (''pub struct '' @ className @ '' {''), visitField ?disc])
      ([(0, ''#[derive(Debug, Serialize, Deserialize)]'')]
       @ [(0, ''pub struct '' @ className @ '' {'')] @ fieldLines ?disc @ [])"
    by (intro appends_seq_Cons appends_writeLine appends_visitField appends_seq_Nil)
  from assms(2) have "\<forall>p \<in> set ?ps. isField p \<or> isRelationship p" by simp
  then have mid: "appends (seq (concat (map (\<lambda>property. [writeLine 1 [], (\<lambda>w'. visit property w')]) ?ps)))
     (concat (map (\<lambda>p. (1, []) # memberLines p) ?ps))"
    by (rule appends_members)
  have tail: "appends (seq [writeLine 0 ''}'', writeLine 0 []]) ([(0, ''}'')] @ [(0, [])] @ [])"
    by (intro appends_seq_Cons appends_writeLine appends_seq_Nil)
  from appends_seq_append [OF head appends_seq_append [OF mid tail]] assms(1)
  have "visitClassDeclaration (ClassDeclaration className properties) w =
     Inr (w\<lparr>current := Some (fileName, old @
       (([(0, ''#[derive(Debug, Serialize, Deserialize)]'')]
         @ [(0, ''pub struct '' @ className @ '' {'')] @ fieldLines ?disc @ [])
        @ concat (map (\<lambda>p. (1, []) # memberLines p) ?ps)
        @ [(0, ''}'')] @ [(0, [])] @ []))\<rparr>)"
    unfolding appends_def visitClassDeclaration.simps by blast
  then show ?thesis
    by (simp add: d)
qed

theorem visitClassDeclaration_record_witness:
  "current \<lparr>closed = [], current = Some (''org_acme.rs'', [])\<rparr> = Some (''org_acme.rs'', [])
   \<and> isField (Field \<lparr>name = ''identifier'', type = ''String'', isArray = Some False, isOptional = Some False\<rparr> None)
   \<and> isField (Field \<lparr>name = ''name'', type = ''String'', isArray = Some False, isOptional = Some False\<rparr> None)
   \<and> isRelationship (RelationshipDeclaration \<lparr>name = ''owner'', type = ''Person'', isArray = Some False, isOptional = Some True\<rparr>)
   \<and> visitClassDeclaration
        (ClassDeclaration ''Person''
          [Field \<lparr>name = ''identifier'', type = ''String'', isArray = Some False, isOptional = Some False\<rparr> None,
           Field \<lparr>name = ''name'', type = ''String'', isArray = Some False, isOptional = Some False\<rparr> None,
           RelationshipDeclaration \<lparr>name = ''owner'', type = ''Person'', isArray = Some False, isOptional = Some True\<rparr>])
        \<lparr>closed = [], current = Some (''org_acme.rs'', [])\<rparr> =
      Inr \<lparr>closed = [], current = Some (''org_acme.rs'',
        [(0, ''#[derive(Debug, Serialize, Deserialize)]''),
         (0, ''pub struct Person {''),
         (1, ''#[serde(''),
         (2, ''rename = '' @ dquote @ ''$class'' @ dquote @ '',''),
         (1, '')]''),
         (1, ''pub class: String,''),
         (1, []),
         (1, ''#[serde(''),
         (2, ''rename = '' @ dquote @ ''name'' @ dquote @ '',''),
         (1, '')]''),
         (1, ''pub name: String,''),
         (1, []),
         (1, ''#[serde(rename = '' @ dquote @ ''owner'' @ dquote @ '')]''),
         (1, ''pub owner: Option<Person>,''),
         (0, ''}''),
         (0, [])])\<rparr>"
proof -
  have n: "toValidRustName ''name'' = ''name''" "toValidRustName ''owner'' = ''owner''"
    by code_simp+
  show ?thesis
    using visitClassDeclaration_record
      [of "\<lparr>closed = [], current = Some (''org_acme.rs'', [])\<rparr>" "''org_acme.rs''" "[]"
          "[Field \<lparr>name = ''identifier'', type = ''String'', isArray = Some False, isOptional = Some False\<rparr> None,
            Field \<lparr>name = ''name'', type = ''String'', isArray = Some False, isOptional = Some False\<rparr> None,
            RelationshipDeclaration \<lparr>name = ''owner'', type = ''Person'', isArray = Some False, isOptional = Some True\<rparr>]"
          "''Person''"]
    by (simp add: fieldLines_def relationshipLines_def memberLine_def wrapType_def n)
qed


text \<open>
  C2: for a field that is an array and optional, the member line has the type
  \<^verbatim>\<open>Option<Vec<Base>>\<close>, the array wrapped first and the optional around it, and
  not \<^verbatim>\<open>Vec<Option<Base>>\<close>.
\<close>

theorem visitField_optional_array:
  assumes "isArray field = Some True" and "isOptional field = Some True"
    and "current w = Some (fileName, old)"
  shows "visitField field w =
        Inr (w\<lparr>current := Some (fileName, old @
          [(1, ''#[serde(''),
           (2, ''rename = '' @ dquote @ name field @ dquote @ '',''),
           (2, ''skip_serializing_if = '' @ dquote @ ''Option::is_none'' @ dquote @ '','')]
          @ (if type field = ''DateTime''
             then [(2, ''serialize_with = '' @ dquote @ ''serialize_datetime_option'' @ dquote @ '',''),
                   (2, ''deserialize_with = '' @ dquote @ ''deserialize_datetime_option'' @ dquote @ '','')]
             else [])
          @ [(1, '')]''),
             (1, ''pub '' @ toValidRustName (replaceFirst (CHR ''$'') [] (name field))
               @ '': Option<Vec<'' @ toRustType (type field) @ ''>>,'')])\<rparr>)
      \<and> visitField field w \<noteq>
        Inr (w\<lparr>current := Some (fileName, old @
          [(1, ''#[serde(''),
           (2, ''rename = '' @ dquote @ name field @ dquote @ '',''),
           (2, ''skip_serializing_if = '' @ dquote @ ''Option::is_none'' @ dquote @ '','')]
          @ (if type field = ''DateTime''
             then [(2, ''serialize_with = '' @ dquote @ ''serialize_datetime_option'' @ dquote @ '',''),
                   (2, ''deserialize_with = '' @ dquote @ ''deserialize_datetime_option'' @ dquote @ '','')]
             else [])
          @ [(1, '')]''),
             (1, ''pub '' @ toValidRustName (replaceFirst (CHR ''$'') [] (name field))
               @ '': Vec<Option<'' @ toRustType (type field) @ ''>>,'')])\<rparr>)"
    (is "?run = Inr (w\<lparr>current := Some (fileName, ?good)\<rparr>)
         \<and> ?run \<noteq> Inr (w\<lparr>current := Some (fileName, ?bad)\<rparr>)")
proof
  show run: "?run = Inr (w\<lparr>current := Some (fileName, ?good)\<rparr>)"
    using assms
    by (simp add: visitField_def Let_def truthy_def writeLine_open isDateField_def
        del: toRustType.simps)
  show "?run \<noteq> Inr (w\<lparr>current := Some (fileName, ?bad)\<rparr>)"
  proof
    assume "?run = Inr (w\<lparr>current := Some (fileName, ?bad)\<rparr>)"
    with run have "w\<lparr>current := Some (fileName, ?good)\<rparr> = w\<lparr>current := Some (fileName, ?bad)\<rparr>"
      by simp
    then have "current (w\<lparr>current := Some (fileName, ?good)\<rparr>)
        = current (w\<lparr>current := Some (fileName, ?bad)\<rparr>)"
      by (rule arg_cong)
    then show False by simp
  qed
qed

theorem visitField_optional_array_witness:
  "isArray \<lparr>name = ''tags'', type = ''Long'', isArray = Some True, isOptional = Some True\<rparr> = Some True
   \<and> current \<lparr>closed = [], current = Some (''org_acme.rs'', [])\<rparr> = Some (''org_acme.rs'', [])
   \<and> visitField \<lparr>name = ''tags'', type = ''Long'', isArray = Some True, isOptional = Some True\<rparr>
        \<lparr>closed = [], current = Some (''org_acme.rs'', [])\<rparr> =
      Inr \<lparr>closed = [], current = Some (''org_acme.rs'',
        [(1, ''#[serde(''),
         (2, ''rename = '' @ dquote @ ''tags'' @ dquote @ '',''),
         (2, ''skip_serializing_if = '' @ dquote @ ''Option::is_none'' @ dquote @ '',''),
         (1, '')]''),
         (1, ''pub '' @ toValidRustName ''tags'' @ '': Option<Vec<u64>>,'')])\<rparr>"
  using visitField_optional_array
    [of "\<lparr>name = ''tags'', type = ''Long'', isArray = Some True, isOptional = Some True\<rparr>"
        "\<lparr>closed = [], current = Some (''org_acme.rs'', [])\<rparr>" "''org_acme.rs''" "[]"]
  by simp

text \<open>
  C6: a field of type \<^verbatim>\<open>DateTime\<close> that is optional carries the skip-if-none annotation and
  the hooks \<^verbatim>\<open>serialize_datetime_option\<close> and \<^verbatim>\<open>deserialize_datetime_option\<close>; one that is
  not optional carries the hooks \<^verbatim>\<open>serialize_datetime\<close> and \<^verbatim>\<open>deserialize_datetime\<close> and no
  skip annotation.
\<close>

theorem visitField_DateTime_hooks:
  assumes "type field = ''DateTime''" and "current w = Some (fileName, old)"
  shows "visitField field w =
     Inr (w\<lparr>current := Some (fileName, old @
       (if isOptional field = Some True
        then [(1, ''#[serde(''),
              (2, ''rename = '' @ dquote @ name field @ dquote @ '',''),
              (2, ''skip_serializing_if = '' @ dquote @ ''Option::is_none'' @ dquote @ '',''),
              (2, ''serialize_with = '' @ dquote @ ''serialize_datetime_option'' @ dquote @ '',''),
              (2, ''deserialize_with = '' @ dquote @ ''deserialize_datetime_option'' @ dquote @ '',''),
              (1, '')]''),
              (1, ''pub '' @ toValidRustName (replaceFirst (CHR ''$'') [] (name field)) @ '': Option<''
                  @ (if isArray field = Some True then ''Vec<DateTime<Utc>>'' else ''DateTime<Utc>'')
                  @ ''>,'')]
        else [(1, ''#[serde(''),
              (2, ''rename = '' @ dquote @ name field @ dquote @ '',''),
              (2, ''serialize_with = '' @ dquote @ ''serialize_datetime'' @ dquote @ '',''),
              (2, ''deserialize_with = '' @ dquote @ ''deserialize_datetime'' @ dquote @ '',''),
              (1, '')]''),
              (1, ''pub '' @ toValidRustName (replaceFirst (CHR ''$'') [] (name field)) @ '': ''
                  @ (if isArray field = Some True then ''Vec<DateTime<Utc>>'' else ''DateTime<Utc>'')
                  @ '','')]))\<rparr>)"
  using assms
  by (simp add: visitField_def Let_def truthy_def writeLine_open isDateField_def)

theorem visitField_DateTime_hooks_witness:
  "type \<lparr>name = ''dob'', type = ''DateTime'', isArray = Some False, isOptional = Some True\<rparr> = ''DateTime''
   \<and> type \<lparr>name = ''created'', type = ''DateTime'', isArray = Some False, isOptional = Some False\<rparr> = ''DateTime''
   \<and> visitField \<lparr>name = ''dob'', type = ''DateTime'', isArray = Some False, isOptional = Some True\<rparr>
        \<lparr>closed = [], current = Some (''org_acme.rs'', [])\<rparr> =
      Inr \<lparr>closed = [], current = Some (''org_acme.rs'',
        [(1, ''#[serde(''),
         (2, ''rename = '' @ dquote @ ''dob'' @ dquote @ '',''),
         (2, ''skip_serializing_if = '' @ dquote @ ''Option::is_none'' @ dquote @ '',''),
         (2, ''serialize_with = '' @ dquote @ ''serialize_datetime_option'' @ dquote @ '',''),
         (2, ''deserialize_with = '' @ dquote @ ''deserialize_datetime_option'' @ dquote @ '',''),
         (1, '')]''),
         (1, ''pub '' @ toValidRustName ''dob'' @ '': Option<DateTime<Utc>>,'')])\<rparr>
   \<and> visitField \<lparr>name = ''created'', type = ''DateTime'', isArray = Some False, isOptional = Some False\<rparr>
        \<lparr>closed = [], current = Some (''org_acme.rs'', [])\<rparr> =
      Inr \<lparr>closed = [], current = Some (''org_acme.rs'',
        [(1, ''#[serde(''),
         (2, ''rename = '' @ dquote @ ''created'' @ dquote @ '',''),
         (2, ''serialize_with = '' @ dquote @ ''serialize_datetime'' @ dquote @ '',''),
         (2, ''deserialize_with = '' @ dquote @ ''deserialize_datetime'' @ dquote @ '',''),
         (1, '')]''),
         (1, ''pub '' @ toValidRustName ''created'' @ '': DateTime<Utc>,'')])\<rparr>"
  using visitField_DateTime_hooks
    [of "\<lparr>name = ''dob'', type = ''DateTime'', isArray = Some False, isOptional = Some True\<rparr>"
        "\<lparr>closed = [], current = Some (''org_acme.rs'', [])\<rparr>" "''org_acme.rs''" "[]"]
    visitField_DateTime_hooks
    [of "\<lparr>name = ''created'', type = ''DateTime'', isArray = Some False, isOptional = Some False\<rparr>"
        "\<lparr>closed = [], current = Some (''org_acme.rs'', [])\<rparr>" "''org_acme.rs''" "[]"]
  by simp

lemma replaceFirst_first:
  "p \<notin> set a \<Longrightarrow> replaceFirst p r (a @ p # b) = a @ r @ b"
  by (induction a) auto

lemma replaceFirst_absent: "p \<notin> set a \<Longrightarrow> replaceFirst p r a = a"
  by (induction a) auto

text \<open>
  C10: the identifier of an emitted field or relationship member is the sanitizer applied
  to the declared name without its first \<^verbatim>\<open>$\<close> (a later \<^verbatim>\<open>$\<close> stays and is turned into
  an underscore by the sanitizer), while the rename annotation carries the declared name
  as it is; the discriminator \<^verbatim>\<open>$class\<close> is the member \<^verbatim>\<open>class\<close> with rename \<^verbatim>\<open>$class\<close>.
\<close>

theorem member_identifier_and_rename:
  assumes "current w = Some (fileName, old)"
  shows "(\<exists>annotations typeExpr.
            visitField p w = Inr (w\<lparr>current := Some (fileName, old @
              [(1, ''#[serde(''), (2, ''rename = '' @ dquote @ name p @ dquote @ '','')]
              @ annotations
              @ [(1, ''pub '' @ toValidRustName (replaceFirst (CHR ''$'') [] (name p))
                     @ '': '' @ typeExpr @ '','')])\<rparr>))
      \<and> (\<exists>typeExpr.
            visitRelationshipDeclaration p w = Inr (w\<lparr>current := Some (fileName, old @
              [(1, ''#[serde(rename = '' @ dquote @ name p @ dquote @ '')]''),
               (1, ''pub '' @ toValidRustName (replaceFirst (CHR ''$'') [] (name p))
                     @ '': '' @ typeExpr @ '','')])\<rparr>))
      \<and> (CHR ''$'' \<notin> set a \<longrightarrow> replaceFirst (CHR ''$'') [] (a @ ''$'' @ b) = a @ b)
      \<and> (CHR ''$'' \<notin> set a \<longrightarrow> replaceFirst (CHR ''$'') [] a = a)
      \<and> toValidRustName (replaceFirst (CHR ''$'') [] ''$a$b'') = ''a_b''
      \<and> visitField \<lparr>name = ''$class'', type = ''String'', isArray = None, isOptional = None\<rparr> w =
          Inr (w\<lparr>current := Some (fileName, old @
              [(1, ''#[serde(''), (2, ''rename = '' @ dquote @ ''$class'' @ dquote @ '',''),
               (1, '')]''), (1, ''pub class: String,'')])\<rparr>)"
proof (intro conjI)
  let ?pub = "\<lambda>t. (1::nat, ''pub '' @ toValidRustName (replaceFirst (CHR ''$'') [] (name p))
                     @ '': '' @ t @ '','')"
  let ?t2 = "if truthy (isArray p) then ''Vec<'' @ toRustType (type p) @ ''>'' else toRustType (type p)"
  let ?t3 = "if truthy (isOptional p) then ''Option<'' @ ?t2 @ ''>'' else ?t2"
  let ?ann = "(if truthy (isOptional p)
              then [(2::nat, ''skip_serializing_if = '' @ dquote @ ''Option::is_none'' @ dquote @ '','')]
              else [])
           @ (if isDateField (type p)
              then (if truthy (isOptional p)
                    then [(2, ''serialize_with = '' @ dquote @ ''serialize_datetime_option'' @ dquote @ '',''),
                          (2, ''deserialize_with = '' @ dquote @ ''deserialize_datetime_option'' @ dquote @ '','')]
                    else [(2, ''serialize_with = '' @ dquote @ ''serialize_datetime'' @ dquote @ '',''),
                          (2, ''deserialize_with = '' @ dquote @ ''deserialize_datetime'' @ dquote @ '','')])
              else [])
           @ [(1, '')]'')]"
  have "visitField p w = Inr (w\<lparr>current := Some (fileName, old @
              [(1, ''#[serde(''), (2, ''rename = '' @ dquote @ name p @ dquote @ '','')]
              @ ?ann @ [?pub ?t3])\<rparr>)"
    using assms
    by (simp add: visitField_def Let_def writeLine_open del: toRustType.simps)
  then show "\<exists>annotations typeExpr.
            visitField p w = Inr (w\<lparr>current := Some (fileName, old @
              [(1, ''#[serde(''), (2, ''rename = '' @ dquote @ name p @ dquote @ '','')]
              @ annotations @ [?pub typeExpr])\<rparr>)"
    by blast
  let ?r2 = "if truthy (isArray p) then ''Vec<'' @ type p @ ''>'' else type p"
  let ?r3 = "if truthy (isOptional p) then ''Option<'' @ ?r2 @ ''>'' else ?r2"
  have "visitRelationshipDeclaration p w = Inr (w\<lparr>current := Some (fileName, old @
              [(1, ''#[serde(rename = '' @ dquote @ name p @ dquote @ '')]''), ?pub ?r3])\<rparr>)"
    using assms
    by (simp add: visitRelationshipDeclaration_def Let_def writeLine_open)
  then show "\<exists>typeExpr.
            visitRelationshipDeclaration p w = Inr (w\<lparr>current := Some (fileName, old @
              [(1, ''#[serde(rename = '' @ dquote @ name p @ dquote @ '')]''), ?pub typeExpr])\<rparr>)"
    by blast
  show "CHR ''$'' \<notin> set a \<longrightarrow> replaceFirst (CHR ''$'') [] (a @ ''$'' @ b) = a @ b"
    using replaceFirst_first [of "CHR ''$''" a "[]" b] by simp
  show "CHR ''$'' \<notin> set a \<longrightarrow> replaceFirst (CHR ''$'') [] a = a"
    by (simp add: replaceFirst_absent)
  show "toValidRustName (replaceFirst (CHR ''$'') [] ''$a$b'') = ''a_b''"
    by code_simp
  have "toValidRustName (replaceFirst (CHR ''$'') [] ''$class'') = ''class''" by code_simp
  then show "visitField \<lparr>name = ''$class'', type = ''String'', isArray = None, isOptional = None\<rparr> w =
          Inr (w\<lparr>current := Some (fileName, old @
              [(1, ''#[serde(''), (2, ''rename = '' @ dquote @ ''$class'' @ dquote @ '',''),
               (1, '')]''), (1, ''pub class: String,'')])\<rparr>)"
    using assms
    by (simp add: visitField_def Let_def truthy_def isDateField_def writeLine_open)
qed

theorem member_identifier_and_rename_witness:
  "current \<lparr>closed = [], current = Some (''org_acme.rs'', [])\<rparr> = Some (''org_acme.rs'', [])
   \<and> visitField \<lparr>name = ''$class'', type = ''String'', isArray = None, isOptional = None\<rparr>
        \<lparr>closed = [], current = Some (''org_acme.rs'', [])\<rparr> =
       Inr \<lparr>closed = [], current = Some (''org_acme.rs'',
         [(1, ''#[serde(''), (2, ''rename = '' @ dquote @ ''$class'' @ dquote @ '',''),
          (1, '')]''), (1, ''pub class: String,'')])\<rparr>
   \<and> replaceFirst (CHR ''$'') [] (''a'' @ ''$'' @ ''b$c'') = ''a'' @ ''b$c''"
  using member_identifier_and_rename
    [of "\<lparr>closed = [], current = Some (''org_acme.rs'', [])\<rparr>" "''org_acme.rs''" "[]"
        "\<lparr>name = ''a$b$c'', type = ''String'', isArray = None, isOptional = None\<rparr>"
        "''a''" "''b$c''"]
  by simp


text \<open>
  C4, as the code has it: \<open>toRustCrateName\<close> replaces every \<^verbatim>\<open>@\<close> and every \<^verbatim>\<open>.\<close> by an
  underscore and changes nothing else, but the visitor does not call it. In a run that
  starts with no unit open, the manifest \<^verbatim>\<open>lib.rs\<close> has one line \<^verbatim>\<open>pub mod <n>;\<close> per
  namespace, \<open>n\<close> being the member-name sanitizer \<open>toValidRustName\<close> applied to the
  namespace, then the line for \<^verbatim>\<open>utils\<close>; and the unit of a model file is named by
  \<open>toValidRustName\<close> of its namespace, followed by \<^verbatim>\<open>.rs\<close>.
\<close>

theorem namespace_units_use_sanitizer:
  assumes "current w = None"
  shows "toRustCrateName namespace =
           map (\<lambda>c. if c = CHR ''@'' \<or> c = CHR ''.'' then CHR ''_'' else c) namespace
      \<and> (visitModelManager (ModelManager namespaces modelFiles) w = Inr w' \<longrightarrow>
           (\<exists>rest. closed w' = closed w @
              (''lib.rs'', map (\<lambda>ns. (0, ''pub mod '' @ toValidRustName ns @ '';'')) namespaces
                            @ [(0, ''pub mod utils;'')]) # rest))
      \<and> (visitModelFile (ModelFile namespace imports declarations) w = Inr w'' \<longrightarrow>
           (\<exists>ls. closed w'' = closed w @ [(toValidRustName namespace @ ''.rs'', ls)]
                 \<and> current w'' = None))"
proof (intro conjI impI)
  show "toRustCrateName namespace =
           map (\<lambda>c. if c = CHR ''@'' \<or> c = CHR ''.'' then CHR ''_'' else c) namespace"
    by (rule toRustCrateName_map)
next
  assume run: "visitModelManager (ModelManager namespaces modelFiles) w = Inr w'"
  let ?manifest = "(''lib.rs'', map (\<lambda>ns. (0::nat, ''pub mod '' @ toValidRustName ns @ '';'')) namespaces
                            @ [(0, ''pub mod utils;'')])"
  let ?w1 = "w\<lparr>closed := closed w @ [?manifest], current := None\<rparr>"
  let ?head = "[openFile ''lib.rs'']
       @ map (\<lambda>namespace. writeLine 0 (''pub mod '' @ toValidRustName namespace @ '';'')) namespaces
       @ [writeLine 0 ''pub mod utils;'', closeFile]"
  let ?tail = "addUtilsModelFile # map (\<lambda>modelFile w'. visit modelFile w') modelFiles"
  have split: "visitModelManager (ModelManager namespaces modelFiles) w = seq (?head @ ?tail) w"
    by simp
  have "seq ?head w = Inr ?w1" using assms by (rule manifest_written)
  with run split have t: "seq ?tail ?w1 = Inr w'"
    by (simp only: seq_append sum.case)
  have "growsClosed (seq ?tail)"
    by (rule growsClosed_seq) (auto simp: growsClosed_addUtilsModelFile growsClosed_visit)
  with t obtain ext where "closed w' = closed ?w1 @ ext"
    unfolding growsClosed_def by blast
  then show "\<exists>rest. closed w' = closed w @ ?manifest # rest" by simp
next
  assume run: "visitModelFile (ModelFile namespace imports declarations) w = Inr w''"
  let ?fn = "toValidRustName namespace @ ''.rs''"
  let ?w1 = "w\<lparr>current := Some (?fn, [])\<rparr>"
  let ?mid = "[writeLine 0 ''use serde::{ Deserialize, Serialize };'',
        writeLine 0 ''use chrono::{ DateTime, TimeZone, Utc };'',
        writeLine 1 []]
       @ map (\<lambda>ns. writeLine 0 (''use crate::'' @ toValidRustName ns @ ''::*;''))
           (firstOccurrences (filter (\<lambda>ns. ns \<noteq> namespace) (map ModelUtil_getNamespace imports)))
       @ [writeLine 0 ''use crate::utils::*;'',
          writeLine 1 []]
       @ map (\<lambda>declaration w'. visit declaration w') declarations"
  have split: "visitModelFile (ModelFile namespace imports declarations) w
      = seq ([openFile ?fn] @ ?mid @ [closeFile]) w"
    by simp
  have o: "seq [openFile ?fn] w = Inr ?w1" using assms by (simp add: openFile_def)
  from run split o have "seq (?mid @ [closeFile]) ?w1 = Inr w''"
    by (simp only: seq_append sum.case)
  then obtain w2 where m: "seq ?mid ?w1 = Inr w2" and c: "closeFile w2 = Inr w''"
    by (auto simp: seq_append split: sum.splits)
  have "keepsOpen (seq ?mid)"
    by (rule keepsOpen_seq) (auto simp: keepsOpen_writeLine keepsOpen_visit)
  moreover have "current ?w1 = Some (?fn, [])" by simp
  ultimately obtain ls where "closed w2 = closed ?w1" and "current w2 = Some (?fn, [] @ ls)"
    using m unfolding keepsOpen_def by blast
  with c have "closed w'' = closed w @ [(?fn, ls)] \<and> current w'' = None"
    by (auto simp: closeFile_def)
  then show "\<exists>ls. closed w'' = closed w @ [(?fn, ls)] \<and> current w'' = None" by blast
qed

theorem namespace_units_use_sanitizer_witness:
  "current \<lparr>closed = [], current = None\<rparr> = None
   \<and> (\<exists>w' rest.
        visitModelManager (ModelManager [''org.acme@1.0.0''] [ModelFile ''org.acme@1.0.0'' [] []])
          \<lparr>closed = [], current = None\<rparr> = Inr w'
        \<and> closed w' = (''lib.rs'', [(0, ''pub mod '' @ toValidRustName ''org.acme@1.0.0'' @ '';''),
                                     (0, ''pub mod utils;'')]) # rest)
   \<and> (\<exists>w'' ls.
        visitModelFile (ModelFile ''org.acme@1.0.0'' [] []) \<lparr>closed = [], current = None\<rparr> = Inr w''
        \<and> closed w'' = [(toValidRustName ''org.acme@1.0.0'' @ ''.rs'', ls)])"
proof -
  let ?w = "\<lparr>closed = [], current = None\<rparr>"
  let ?mm = "ModelManager [''org.acme@1.0.0''] [ModelFile ''org.acme@1.0.0'' [] []]"
  have "map_sum (\<lambda>e. ()) (\<lambda>w. ()) (visitModelManager ?mm ?w) = Inr ()" by code_simp
  then obtain w' where 1: "visitModelManager ?mm ?w = Inr w'"
    by (cases "visitModelManager ?mm ?w") simp_all
  have "map_sum (\<lambda>e. ()) (\<lambda>w. ()) (visitModelFile (ModelFile ''org.acme@1.0.0'' [] []) ?w) = Inr ()"
    by code_simp
  then obtain w'' where 2: "visitModelFile (ModelFile ''org.acme@1.0.0'' [] []) ?w = Inr w''"
    by (cases "visitModelFile (ModelFile ''org.acme@1.0.0'' [] []) ?w") simp_all
  have h: "current ?w = None" by simp
  from namespace_units_use_sanitizer [OF h, of "''org.acme@1.0.0''" "[''org.acme@1.0.0'']"
      "[ModelFile ''org.acme@1.0.0'' [] []]" w' "[]" "[]" w''] 1 2
  show ?thesis by simp
qed

text \<open>
  The namespace \<^verbatim>\<open>org.Acme\<close>: the unit is \<^verbatim>\<open>org__acme.rs\<close> and the manifest line is
  \<^verbatim>\<open>pub mod org__acme;\<close>, where the transliteration of the namespace gives \<^verbatim>\<open>org_Acme\<close>.
\<close>

theorem namespace_units_counterexample:
  "visitModelFile (ModelFile ''org.Acme'' [] []) \<lparr>closed = [], current = None\<rparr> =
     Inr \<lparr>closed = [(''org__acme.rs'',
             [(0, ''use serde::{ Deserialize, Serialize };''),
              (0, ''use chrono::{ DateTime, TimeZone, Utc };''),
              (1, []),
              (0, ''use crate::utils::*;''),
              (1, [])])],
          current = None\<rparr>
   \<and> map_sum id (hd \<circ> closed)
         (visitModelManager (ModelManager [''org.Acme''] []) \<lparr>closed = [], current = None\<rparr>)
       = Inr (''lib.rs'', [(0, ''pub mod org__acme;''), (0, ''pub mod utils;'')])
   \<and> toRustCrateName ''org.Acme'' = ''org_Acme''"
  by code_simp

text \<open>
  C8, as the code has it: visiting a scalar alias declaration emits no type definition;
  it appends one line, \<^verbatim>\<open>scalarDeclaration - <name>\<close> at indentation 0, to the open unit
  and leaves everything else as it was.
\<close>

theorem visitScalarDeclaration_placeholder:
  assumes "current w = Some (fileName, old)"
  shows "visit (ScalarDeclaration scalarName) w =
     Inr (w\<lparr>current := Some (fileName, old @ [(0, ''scalarDeclaration - '' @ scalarName)])\<rparr>)"
  using assms
  by (simp add: visit_ScalarDeclaration writeLine_open)

theorem visitScalarDeclaration_placeholder_witness:
  "current \<lparr>closed = [], current = Some (''org_acme.rs'', [(1, [])])\<rparr> = Some (''org_acme.rs'', [(1, [])])
   \<and> visit (ScalarDeclaration ''Age'') \<lparr>closed = [], current = Some (''org_acme.rs'', [(1, [])])\<rparr> =
     Inr \<lparr>closed = [], current = Some (''org_acme.rs'', [(1, []), (0, ''scalarDeclaration - Age'')])\<rparr>"
  using visitScalarDeclaration_placeholder
    [of "\<lparr>closed = [], current = Some (''org_acme.rs'', [(1, [])])\<rparr>" "''org_acme.rs''" "[(1, [])]" "''Age''"]
  by simp

text \<open>
  A scalar declaration visited on an open unit with no lines: the unit has one line
  afterwards.
\<close>

theorem visitScalarDeclaration_counterexample:
  "visit (ScalarDeclaration ''Age'') \<lparr>closed = [], current = Some (''org_acme.rs'', [])\<rparr> =
     Inr \<lparr>closed = [], current = Some (''org_acme.rs'', [(0, ''scalarDeclaration - Age'')])\<rparr>
   \<and> visit (ScalarDeclaration ''Age'') \<lparr>closed = [], current = Some (''org_acme.rs'', [])\<rparr> \<noteq>
     Inr \<lparr>closed = [], current = Some (''org_acme.rs'', [])\<rparr>"
  by (simp add: visit_ScalarDeclaration writeLine_def)

text \<open>
  C9: for a node that answers none of the capability predicates (model manager, model
  file, enum, class declaration, scalar-typed field, field, relationship, scalar
  declaration, enum value) the dispatcher fails with an error whose message holds the
  inspection text of the node; nothing is emitted.
\<close>

theorem visit_unrecognised:
  assumes "\<not> isModelManager thing" and "\<not> isModelFile thing" and "\<not> isEnum thing"
    and "\<not> isClassDeclaration thing" and "\<not> isTypeScalar thing" and "\<not> isField thing"
    and "\<not> isRelationship thing" and "\<not> isScalarDeclaration thing" and "\<not> isEnumValue thing"
  shows "visit thing w =
     Inl (Unrecognised (''Unrecognised type: '' @ typeof thing @ '', value: '' @ inspect thing))"
  using assms by (simp add: visit.simps(1))

theorem visit_unrecognised_witness:
  "\<not> isModelManager (Other ''object'' ''{ kind: 7 }'') \<and> \<not> isModelFile (Other ''object'' ''{ kind: 7 }'')
   \<and> \<not> isEnum (Other ''object'' ''{ kind: 7 }'') \<and> \<not> isClassDeclaration (Other ''object'' ''{ kind: 7 }'')
   \<and> \<not> isTypeScalar (Other ''object'' ''{ kind: 7 }'') \<and> \<not> isField (Other ''object'' ''{ kind: 7 }'')
   \<and> \<not> isRelationship (Other ''object'' ''{ kind: 7 }'') \<and> \<not> isScalarDeclaration (Other ''object'' ''{ kind: 7 }'')
   \<and> \<not> isEnumValue (Other ''object'' ''{ kind: 7 }'')
   \<and> visit (Other ''object'' ''{ kind: 7 }'') \<lparr>closed = [], current = Some (''org_acme.rs'', [])\<rparr> =
       Inl (Unrecognised ''Unrecognised type: object, value: { kind: 7 }'')"
  using visit_unrecognised [of "Other ''object'' ''{ kind: 7 }''"
      "\<lparr>closed = [], current = Some (''org_acme.rs'', [])\<rparr>"]
  by simp

section \<open>Properties of the recursion detector\<close>

lemma RecursionDetectionVisitor_visit_iff:
  "decl \<in> set (n # stack) \<Longrightarrow>
   RecursionDetectionVisitor_visit g decl stack n \<longleftrightarrow>
     (\<exists>t xs. classEdge g n t \<and> rtrancl_path (classEdge g) t xs decl \<and> distinct (t # xs)
        \<and> (\<forall>v \<in> set (t # xs). v \<in> set (n # stack) \<longrightarrow> v = decl))"
proof (induction g decl stack n rule: RecursionDetectionVisitor_visit.induct)
  case (1 g decl stack n)
  let ?S = "n # stack"
  let ?good = "\<lambda>S t xs. rtrancl_path (classEdge g) t xs decl \<and> distinct (t # xs)
        \<and> (\<forall>v \<in> set (t # xs). v \<in> set S \<longrightarrow> v = decl)"
  have unfold: "RecursionDetectionVisitor_visit g decl stack n \<longleftrightarrow>
      (\<exists>t \<in> set (classTyped g n).
         if t \<in> set ?S then t = decl else RecursionDetectionVisitor_visit g decl ?S t)"
    by (subst RecursionDetectionVisitor_visit.simps) (simp only: list_ex_iff)
  have IH: "RecursionDetectionVisitor_visit g decl ?S t \<longleftrightarrow>
      (\<exists>u ys. classEdge g t u \<and> ?good (t # ?S) u ys)"
    if "t \<in> set (classTyped g n)" "t \<notin> set ?S" for t
    using "1.IH" [OF that] "1.prems" by simp
  show ?case
  proof
    assume "RecursionDetectionVisitor_visit g decl stack n"
    with unfold obtain t where t: "t \<in> set (classTyped g n)"
      and c: "if t \<in> set ?S then t = decl else RecursionDetectionVisitor_visit g decl ?S t"
      by blast
    from t have e: "classEdge g n t" by (simp add: classEdge_def)
    show "\<exists>t xs. classEdge g n t \<and> ?good ?S t xs"
    proof (cases "t \<in> set ?S")
      case True
      with c have "t = decl" by simp
      then have "?good ?S t []" by (simp add: rtrancl_path.base)
      with e show ?thesis by blast
    next
      case False
      with c have "RecursionDetectionVisitor_visit g decl ?S t" by simp
      with IH [OF t False] obtain u ys where u: "classEdge g t u" and g: "?good (t # ?S) u ys"
        by blast
      from u g have p: "rtrancl_path (classEdge g) t (u # ys) decl"
        by (blast intro: rtrancl_path.step)
      have nt: "t \<notin> set (u # ys)"
      proof
        assume "t \<in> set (u # ys)"
        with g have "t = decl" by auto
        with False "1.prems" show False by simp
      qed
      with g have d: "distinct (t # u # ys)" by simp
      from g False have "\<forall>v \<in> set (t # u # ys). v \<in> set ?S \<longrightarrow> v = decl" by auto
      with p d have "?good ?S t (u # ys)" by blast
      with e show ?thesis by blast
    qed
  next
    assume "\<exists>t xs. classEdge g n t \<and> ?good ?S t xs"
    then obtain t xs where e: "classEdge g n t" and g: "?good ?S t xs" by blast
    from e have t: "t \<in> set (classTyped g n)" by (simp add: classEdge_def)
    have "if t \<in> set ?S then t = decl else RecursionDetectionVisitor_visit g decl ?S t"
    proof (cases "t \<in> set ?S")
      case True
      with g show ?thesis by auto
    next
      case False
      with "1.prems" have ne: "t \<noteq> decl" by auto
      from g have p0: "rtrancl_path (classEdge g) t xs decl" by blast
      from p0 ne obtain u ys where xs: "xs = u # ys" and u: "classEdge g t u"
        and p: "rtrancl_path (classEdge g) u ys decl"
        by cases auto
      from g xs have "distinct (u # ys)" and "t \<notin> set (u # ys)" by simp_all
      moreover from g xs have "\<forall>v \<in> set (u # ys). v \<in> set ?S \<longrightarrow> v = decl" by simp
      ultimately have "?good (t # ?S) u ys" using p by auto
      with u IH [OF t False] have "RecursionDetectionVisitor_visit g decl ?S t" by blast
      with False show ?thesis by simp
    qed
    with t unfold show "RecursionDetectionVisitor_visit g decl stack n" by blast
  qed
qed

lemma isModelRecursive_iff: "isModelRecursive g decl \<longleftrightarrow> (classEdge g)\<^sup>+\<^sup>+ decl decl"
proof
  assume "isModelRecursive g decl"
  then obtain t xs where "classEdge g decl t" and "rtrancl_path (classEdge g) t xs decl"
    unfolding isModelRecursive_def
    by (subst (asm) RecursionDetectionVisitor_visit_iff) auto
  then have "classEdge g decl t" and "(classEdge g)\<^sup>*\<^sup>* t decl"
    by (auto simp: rtranclp_eq_rtrancl_path)
  then show "(classEdge g)\<^sup>+\<^sup>+ decl decl" by (rule rtranclp_into_tranclp2)
next
  assume "(classEdge g)\<^sup>+\<^sup>+ decl decl"
  then obtain t where e: "classEdge g decl t" and "(classEdge g)\<^sup>*\<^sup>* t decl"
    by (blast dest: tranclpD)
  then obtain xs where "rtrancl_path (classEdge g) t xs decl"
    by (auto simp: rtranclp_eq_rtrancl_path)
  then obtain ys where "rtrancl_path (classEdge g) t ys decl" and "distinct (t # ys)"
    by (rule rtrancl_path_distinct)
  with e have "\<exists>t xs. classEdge g decl t \<and> rtrancl_path (classEdge g) t xs decl \<and> distinct (t # xs)
        \<and> (\<forall>v \<in> set (t # xs). v \<in> set (decl # []) \<longrightarrow> v = decl)"
    by auto
  then show "isModelRecursive g decl"
    unfolding isModelRecursive_def
    by (subst RecursionDetectionVisitor_visit_iff) auto
qed

text \<open>
  C5: \<open>isModelRecursive\<close> is true exactly when the declaration is reachable from itself
  along the edges "declares a property whose type is the class". A cycle met on the way
  that does not return to the declaration gives false (\<open>lasso\<close>), and so does each
  class of the diamond; the first class of the three-cycle gives true.
\<close>

theorem isModelRecursive_cycle_through_origin:
  "(isModelRecursive g decl \<longleftrightarrow> (classEdge g)\<^sup>+\<^sup>+ decl decl)
   \<and> isModelRecursive cycleABC ''A''
   \<and> \<not> isModelRecursive lasso ''A''
   \<and> \<not> isModelRecursive diamond ''A'' \<and> \<not> isModelRecursive diamond ''B''
   \<and> \<not> isModelRecursive diamond ''C'' \<and> \<not> isModelRecursive diamond ''D''"
proof -
  have "isModelRecursive cycleABC ''A''
   \<and> \<not> isModelRecursive lasso ''A''
   \<and> \<not> isModelRecursive diamond ''A'' \<and> \<not> isModelRecursive diamond ''B''
   \<and> \<not> isModelRecursive diamond ''C'' \<and> \<not> isModelRecursive diamond ''D''"
    by code_simp
  with isModelRecursive_iff [of g decl] show ?thesis by blast
qed

theorem isModelRecursive_cycle_through_origin_witness:
  "isModelRecursive cycleABC ''A'' \<and> (classEdge cycleABC)\<^sup>+\<^sup>+ ''A'' ''A''
   \<and> \<not> (classEdge lasso)\<^sup>+\<^sup>+ ''A'' ''A''"
  using isModelRecursive_cycle_through_origin [of cycleABC "''A''"]
    isModelRecursive_cycle_through_origin [of lasso "''A''"]
  by blast


end
